theory Spec2Isabelle
  imports Complex_Main
begin

section \<open>Errors, tensors and the library operations the module calls\<close>

text \<open>
  The module \<^verbatim>\<open>genlm/backend/llm/base.py\<close> defines the abstract class \<^verbatim>\<open>AsyncLM\<close>
  with its two default batch methods, and the test backend \<^verbatim>\<open>MockAsyncLM\<close>.
  An exception is a value of \<open>py_error\<close>; a call returns \<open>py_error + 'a\<close>
  (\<open>Inl\<close> when it raises) together with the instance it leaves behind.
  \<open>ValueError\<close> is what \<^verbatim>\<open>RandomState.seed\<close> raises for a seed outside its range,
  \<open>RuntimeError\<close> what \<^verbatim>\<open>torch.stack\<close> raises, and \<open>BackendError n\<close> stands for any
  exception a concrete backend raises in a single request.
\<close>

datatype py_error = ValueError | RuntimeError | BackendError nat

text \<open>
  A one-dimensional tensor is the list of its entries, a two-dimensional one the list of
  its rows. \<^verbatim>\<open>torch.stack\<close> raises on the empty list and on tensors of different
  sizes; otherwise the tensors become the rows of the result, in order.
\<close>

definition torch_stack :: "'a list list \<Rightarrow> py_error + 'a list list" where
  "torch_stack tensors =
     (case tensors of
        [] \<Rightarrow> Inl RuntimeError
      | t # ts \<Rightarrow>
          if list_all (\<lambda>u. length u = length t) ts then Inr tensors else Inl RuntimeError)"

text \<open>
  The numeric libraries are not part of the module; the backend is written against them,
  and so is the model. A value of \<open>'g numlib\<close> supplies
  \<^item> \<open>rs_seed\<close>: \<^verbatim>\<open>RandomState.seed(seed)\<close>, which rebuilds the whole generator state
    \<open>'g\<close> from the seed, or raises and leaves the generator as it was;
  \<^item> \<open>rs_random_sample\<close>: one draw of the generator, the sample and the next state;
  \<^item> \<open>astype_float32\<close>: the rounding of a double to single precision;
  \<^item> \<open>torch_log_softmax\<close>: \<^verbatim>\<open>torch.log_softmax(_, dim=-1)\<close> on a vector.
  Floating-point numbers are read as the reals they denote.
\<close>

record 'g numlib =
  rs_seed :: "int \<Rightarrow> py_error + 'g"
  rs_random_sample :: "'g \<Rightarrow> real \<times> 'g"
  astype_float32 :: "real \<Rightarrow> real"
  torch_log_softmax :: "real list \<Rightarrow> real list"

text \<open>\<^verbatim>\<open>rng.rand(n)\<close>: \<open>n\<close> successive draws, the generator advancing at each.\<close>

fun rand :: "'g numlib \<Rightarrow> 'g \<Rightarrow> nat \<Rightarrow> real list \<times> 'g" where
  "rand np g 0 = ([], g)"
| "rand np g (Suc n) =
     (case rs_random_sample np g of
        (x, g') \<Rightarrow> (case rand np g' n of (xs, g'') \<Rightarrow> (x # xs, g'')))"

text \<open>
  The exact log-softmax: the log-sum-exp of the entries subtracted from each entry.
  It is the function \<open>torch_log_softmax\<close> approximates.
\<close>

definition log_softmax :: "real list \<Rightarrow> real list" where
  "log_softmax logits = map (\<lambda>x. x - ln (sum_list (map exp logits))) logits"




section \<open>MockAsyncLM\<close>

text \<open>
  The instance: the size of its tokenizer (\<^verbatim>\<open>len(self.tokenizer)\<close>) and the generator
  \<^verbatim>\<open>self._rng\<close>, created once by \<^verbatim>\<open>__init__\<close> as \<^verbatim>\<open>RandomState(42)\<close> and kept for the
  instance's life.
\<close>

record 'g MockAsyncLM =
  tokenizer_len :: nat
  rng :: 'g

definition mock_init :: "'g numlib \<Rightarrow> nat \<Rightarrow> py_error + 'g MockAsyncLM" where
  "mock_init np n =
     (case rs_seed np 42 of
        Inl e \<Rightarrow> Inl e
      | Inr g \<Rightarrow> Inr \<lparr>tokenizer_len = n, rng = g\<rparr>)"

text \<open>
  Line 140: \<^verbatim>\<open>seed = sum([(i + 1) * t for i, t in enumerate(token_ids)])\<close>, on Python's
  unbounded integers.
\<close>

definition seed_of :: "int list \<Rightarrow> int" where
  "seed_of token_ids = sum_list (map (\<lambda>(i, t). (int i + 1) * t) (enumerate 0 token_ids))"

text \<open>
  \<^verbatim>\<open>_get_logprobs\<close>: re-seed the instance's generator, draw \<^verbatim>\<open>len(self.tokenizer)\<close>
  samples from it, round them to single precision and normalise. The generator of the
  instance is left where the draws ended. When seeding raises, nothing was drawn.
\<close>

definition get_logprobs ::
  "'g numlib \<Rightarrow> 'g MockAsyncLM \<Rightarrow> int list \<Rightarrow> (py_error + real list) \<times> 'g MockAsyncLM" where
  "get_logprobs np self token_ids =
     (case rs_seed np (seed_of token_ids) of
        Inl e \<Rightarrow> (Inl e, self)
      | Inr g \<Rightarrow>
          (case rand np g (tokenizer_len self) of
             (xs, g') \<Rightarrow>
               (Inr (torch_log_softmax np (map (astype_float32 np) xs)), self\<lparr>rng := g'\<rparr>)))"

text \<open>
  The two entry points. The coroutine \<^verbatim>\<open>next_token_logprobs\<close> has no \<^verbatim>\<open>await\<close> in its
  body: once started it runs to its \<^verbatim>\<open>return\<close> without suspending.
\<close>

definition next_token_logprobs ::
  "'g numlib \<Rightarrow> 'g MockAsyncLM \<Rightarrow> int list \<Rightarrow> (py_error + real list) \<times> 'g MockAsyncLM" where
  "next_token_logprobs np self token_ids = get_logprobs np self token_ids"

definition next_token_logprobs_sync ::
  "'g numlib \<Rightarrow> 'g MockAsyncLM \<Rightarrow> int list \<Rightarrow> (py_error + real list) \<times> 'g MockAsyncLM" where
  "next_token_logprobs_sync np self token_ids = get_logprobs np self token_ids"

section \<open>AsyncLM: the default batch methods\<close>

text \<open>
  The batch methods of the base class call the single-request methods of whatever
  backend inherits them. A single-request method is a function from the instance and
  the token ids to the outcome and the instance after the call.
\<close>

type_synonym ('s, 'a) single_op = "'s \<Rightarrow> int list \<Rightarrow> (py_error + 'a list) \<times> 's"

text \<open>
  The list comprehension of \<^verbatim>\<open>batch_next_token_logprobs_sync\<close>: one call per element,
  in order; the first exception leaves the comprehension, and the later elements are
  never requested.
\<close>

fun sync_logprobs :: "('s, 'a) single_op \<Rightarrow> 's \<Rightarrow> int list list \<Rightarrow> (py_error + 'a list list) \<times> 's" where
  "sync_logprobs f s [] = (Inr [], s)"
| "sync_logprobs f s (token_ids # rest) =
     (case f s token_ids of
        (Inl e, s') \<Rightarrow> (Inl e, s')
      | (Inr r, s') \<Rightarrow>
          (case sync_logprobs f s' rest of
             (Inl e, s'') \<Rightarrow> (Inl e, s'')
           | (Inr rs, s'') \<Rightarrow> (Inr (r # rs), s'')))"

definition batch_next_token_logprobs_sync ::
  "('s, 'a) single_op \<Rightarrow> 's \<Rightarrow> int list list \<Rightarrow> (py_error + 'a list list) \<times> 's" where
  "batch_next_token_logprobs_sync f s token_ids_list =
     (case sync_logprobs f s token_ids_list of
        (Inl e, s') \<Rightarrow> (Inl e, s')
      | (Inr logprobs, s') \<Rightarrow> (torch_stack logprobs, s'))"

text \<open>
  \<^verbatim>\<open>asyncio.gather\<close> wraps each coroutine in a task and waits for all of them. The
  members are taken as atomic: each runs from start to end on the instance the
  previously completed member left (for the mock backend, whose coroutine never
  suspends, this is what the event loop does). The order in which they complete is not
  fixed by the source; \<open>latency i\<close> is the completion time of member \<open>i\<close>, and the members
  complete in the order of their latencies (ties by index), so every order is the
  order of some \<open>latency\<close>.
\<close>

definition completion_order :: "(nat \<Rightarrow> nat) \<Rightarrow> 'b list \<Rightarrow> (nat \<times> 'b) list" where
  "completion_order latency xs = sort_key (\<lambda>(i, x). latency i) (enumerate 0 xs)"

text \<open>
  Running the members in their order of completion, up to the first that raises: at
  that moment \<^verbatim>\<open>gather\<close> hands the exception to its caller, the later members still
  pending. The log pairs the index of each completed member among the arguments of
  \<^verbatim>\<open>gather\<close> with its outcome.
\<close>

fun run_members ::
  "('s, 'a) single_op \<Rightarrow> 's \<Rightarrow> (nat \<times> int list) list \<Rightarrow> (nat \<times> (py_error + 'a list)) list \<times> 's" where
  "run_members f s [] = ([], s)"
| "run_members f s ((i, token_ids) # members) =
     (case f s token_ids of
        (Inl e, s') \<Rightarrow> ([(i, Inl e)], s')
      | (Inr r, s') \<Rightarrow>
          (case run_members f s' members of
             (completed, s'') \<Rightarrow> ((i, Inr r) # completed, s'')))"

text \<open>
  \<open>first_error\<close>: the exception of the first member in the log that raised.
  \<open>results\<close>: the results read off the members, in the order given. Its last equation
  (a member without a result) is never reached from \<open>gather\<close>, which reads the results
  only when no member raised, and then every member is in the log.
\<close>

fun first_error :: "(nat \<times> (py_error + 'b)) list \<Rightarrow> py_error option" where
  "first_error [] = None"
| "first_error ((i, Inl e) # completed) = Some e"
| "first_error ((i, Inr r) # completed) = first_error completed"

fun results :: "(py_error + 'b) option list \<Rightarrow> 'b list" where
  "results [] = []"
| "results (Some (Inr r) # outcomes) = r # results outcomes"
| "results (_ # outcomes) = results outcomes"

text \<open>
  \<^verbatim>\<open>gather\<close> (with \<^verbatim>\<open>return_exceptions=False\<close>, as called on line 56) raises the exception
  of the first member that completes with one. The instance it leaves is then the one
  the members completed so far have left: the other members are not cancelled, and what
  they do afterwards is no part of the call. When no member raised, the result list
  holds each member's result at the member's own position among the arguments. Without
  arguments the result is the empty list.
\<close>

definition gather ::
  "('s, 'a) single_op \<Rightarrow> (nat \<Rightarrow> nat) \<Rightarrow> 's \<Rightarrow> int list list \<Rightarrow> (py_error + 'a list list) \<times> 's" where
  "gather f latency s token_ids_list =
     (case run_members f s (completion_order latency token_ids_list) of
        (completed, s') \<Rightarrow>
          (case first_error completed of
             Some e \<Rightarrow> (Inl e, s')
           | None \<Rightarrow>
               (Inr (results (map (map_of completed) [0..<length token_ids_list])), s')))"

definition batch_next_token_logprobs ::
  "('s, 'a) single_op \<Rightarrow> (nat \<Rightarrow> nat) \<Rightarrow> 's \<Rightarrow> int list list \<Rightarrow> (py_error + 'a list list) \<times> 's" where
  "batch_next_token_logprobs f latency s token_ids_list =
     (case gather f latency s token_ids_list of
        (Inl e, s') \<Rightarrow> (Inl e, s')
      | (Inr logprobs, s') \<Rightarrow> (torch_stack logprobs, s'))"

section \<open>Auxiliary notions of the statements\<close>

text \<open>The instance after a sequence of single requests, one after the other.\<close>

fun state_after :: "('s, 'a) single_op \<Rightarrow> 's \<Rightarrow> int list list \<Rightarrow> 's" where
  "state_after f s [] = s"
| "state_after f s (token_ids # rest) = state_after f (snd (f s token_ids)) rest"

text \<open>
  The outcomes of single requests made one after the other, each on the instance the
  previous one left.
\<close>

fun per_item :: "('s, 'a) single_op \<Rightarrow> 's \<Rightarrow> int list list \<Rightarrow> (py_error + 'a list) list" where
  "per_item f s [] = []"
| "per_item f s (token_ids # rest) = fst (f s token_ids) # per_item f (snd (f s token_ids)) rest"


text \<open>
  A small generator, for evaluating the definitions on concrete inputs: its state is a
  counter, seeding accepts the seeds \<^verbatim>\<open>RandomState\<close> accepts, and the log-softmax is the
  exact one.
\<close>

definition counter_np :: "nat numlib" where
  "counter_np =
     \<lparr>rs_seed = (\<lambda>seed. if 0 \<le> seed \<and> seed < 2 ^ 32 then Inr (nat seed) else Inl ValueError),
      rs_random_sample = (\<lambda>g. (real (g mod 4) / 4, Suc g)),
      astype_float32 = (\<lambda>x. x),
      torch_log_softmax = log_softmax\<rparr>"

section \<open>The seed\<close>

lemma seed_of_Nil: "seed_of [] = 0"
  by (simp add: seed_of_def enumerate_eq_zip)

lemma sum_list_enumerate_shift:
  "sum_list (map (\<lambda>(i, t). (int i + 1) * t) (enumerate n ts)) =
   (\<Sum>i<length ts. (int (n + i) + 1) * ts ! i)"
proof (induction ts arbitrary: n)
  case Nil
  show ?case by simp
next
  case (Cons t ts)
  have "(\<Sum>i<length (t # ts). (int (n + i) + 1) * (t # ts) ! i) =
        (int n + 1) * t + (\<Sum>i<length ts. (int (n + Suc i) + 1) * ts ! i)"
    by (simp add: sum.lessThan_Suc_shift del: sum.lessThan_Suc)
  with Cons.IH [of "Suc n"] show ?case by simp
qed

text \<open>
  C4. The seed of a token sequence of length \<open>n\<close> is the sum over the positions
  \<open>i = 0..n-1\<close> of \<open>(i+1) * token_ids[i]\<close>; for \<open>[1,2,3]\<close> it is \<open>1*1 + 2*2 + 3*3 = 14\<close>.
\<close>

theorem seed_of_weighted_sum:
  "seed_of token_ids = (\<Sum>i<length token_ids. (int i + 1) * token_ids ! i)
   \<and> seed_of [1, 2, 3] = 1 * 1 + 2 * 2 + 3 * 3
   \<and> seed_of [1, 2, 3] = 14"
proof -
  have "seed_of token_ids = (\<Sum>i<length token_ids. (int i + 1) * token_ids ! i)"
    unfolding seed_of_def using sum_list_enumerate_shift [of 0 token_ids] by simp
  moreover have "seed_of [1, 2, 3] = 14"
    by (simp add: seed_of_def)
  ultimately show ?thesis by simp
qed

section \<open>The mock backend\<close>

lemma get_logprobs_rng_irrelevant:
  "fst (get_logprobs np (self\<lparr>rng := g\<rparr>) token_ids) = fst (get_logprobs np self token_ids)"
  by (simp add: get_logprobs_def split: sum.splits prod.splits)

lemma tokenizer_len_get_logprobs:
  "tokenizer_len (snd (get_logprobs np self token_ids)) = tokenizer_len self"
  by (simp add: get_logprobs_def split: sum.splits prod.splits)

lemma get_logprobs_same_tokenizer:
  "tokenizer_len a = tokenizer_len b \<Longrightarrow>
   fst (get_logprobs np a token_ids) = fst (get_logprobs np b token_ids)"
  by (simp add: get_logprobs_def split: sum.splits prod.splits)

lemma tokenizer_len_state_after:
  "tokenizer_len (state_after (get_logprobs np) self history) = tokenizer_len self"
  by (induction history arbitrary: self) (simp_all add: tokenizer_len_get_logprobs)

lemma get_logprobs_after_history:
  "fst (get_logprobs np (state_after (get_logprobs np) self history) token_ids) =
   fst (get_logprobs np self token_ids)"
  by (rule get_logprobs_same_tokenizer) (rule tokenizer_len_state_after)

lemma next_token_logprobs_eq: "next_token_logprobs np = get_logprobs np"
  by (rule ext)+ (simp add: next_token_logprobs_def)

lemma next_token_logprobs_sync_eq: "next_token_logprobs_sync np = get_logprobs np"
  by (rule ext)+ (simp add: next_token_logprobs_sync_def)


text \<open>
  C1. On the mock backend, for every token id sequence (the empty one included), the
  blocking \<open>next_token_logprobs_sync\<close> and the non-blocking \<open>next_token_logprobs\<close>
  return identical distributions: called on the same instance they return the same
  outcome and leave the same instance, and their outcomes agree whatever the generator
  of the instance held before either call.
\<close>

theorem sync_async_identical:
  "next_token_logprobs np self token_ids = next_token_logprobs_sync np self token_ids
   \<and> fst (next_token_logprobs np (self\<lparr>rng := g\<rparr>) token_ids) =
     fst (next_token_logprobs_sync np (self\<lparr>rng := g'\<rparr>) token_ids)"
  by (simp add: next_token_logprobs_def next_token_logprobs_sync_def get_logprobs_rng_irrelevant)

text \<open>
  C6. The mock backend is deterministic: two calls with the same token id sequence,
  made after any two histories of earlier calls on the instance, yield identical
  outcomes.
\<close>

theorem mock_deterministic:
  "fst (next_token_logprobs_sync np (state_after (get_logprobs np) self history1) token_ids) =
   fst (next_token_logprobs_sync np (state_after (get_logprobs np) self history2) token_ids)
   \<and> fst (next_token_logprobs np (state_after (get_logprobs np) self history1) token_ids) =
     fst (next_token_logprobs np (state_after (get_logprobs np) self history2) token_ids)"
  by (simp add: next_token_logprobs_def next_token_logprobs_sync_def get_logprobs_after_history)

text \<open>
  C8. The seed is not injective: there are two distinct sequences of non-negative token
  ids with the same seed, and on them the backend gives the same output.
\<close>

theorem seed_not_injective:
  "\<exists>xs ys. xs \<noteq> ys \<and> list_all (\<lambda>t. 0 \<le> t) xs \<and> list_all (\<lambda>t. 0 \<le> t) ys
     \<and> seed_of xs = seed_of ys
     \<and> (\<forall>(np :: 'g numlib) self. next_token_logprobs_sync np self xs = next_token_logprobs_sync np self ys
          \<and> next_token_logprobs np self xs = next_token_logprobs np self ys)"
proof -
  have s: "seed_of [3] = seed_of [1, 1]"
    by (simp add: seed_of_def)
  have "\<forall>(np :: 'g numlib) self. next_token_logprobs_sync np self [3] = next_token_logprobs_sync np self [1, 1]
          \<and> next_token_logprobs np self [3] = next_token_logprobs np self [1, 1]"
    by (simp add: next_token_logprobs_def next_token_logprobs_sync_def get_logprobs_def s)
  with s show ?thesis
    by (intro exI [of _ "[3]"] exI [of _ "[1, 1]"]) simp
qed

section \<open>Normalisation\<close>

lemma length_rand: "length (fst (rand np g n)) = n"
proof (induction n arbitrary: g)
  case 0
  show ?case by simp
next
  case (Suc n)
  obtain x g' where x: "rs_random_sample np g = (x, g')" by (cases "rs_random_sample np g")
  obtain xs g'' where xs: "rand np g' n = (xs, g'')" by (cases "rand np g' n")
  from Suc.IH [of g'] xs have "length xs = n" by simp
  with x xs show ?case by simp
qed










section \<open>The generator of the instance\<close>

lemma rs_seed_counter:
  "rs_seed counter_np seed = (if 0 \<le> seed \<and> seed < 2 ^ 32 then Inr (nat seed) else Inl ValueError)"
  by (simp add: counter_np_def)

lemma log_softmax_counter: "torch_log_softmax counter_np = log_softmax"
  by (simp add: counter_np_def)

lemma astype_counter: "astype_float32 counter_np x = x"
  by (simp add: counter_np_def)

lemma rand_counter: "rand counter_np g n = (map (\<lambda>k. real (k mod 4) / 4) [g..<g + n], g + n)"
  by (induction n arbitrary: g) (simp_all add: counter_np_def upt_rec)

text \<open>
  C9, as stated, fails: the generator is not created per call. It is the one generator
  of the instance, made by \<open>mock_init\<close>, and a call overwrites it: after a request for
  \<open>[1, 2, 3]\<close> the instance holds a generator other than the one it held before.
\<close>

theorem shared_generator_counterexample:
  "mock_init counter_np 3 = Inr \<lparr>tokenizer_len = 3, rng = 42\<rparr>
   \<and> rng (snd (next_token_logprobs_sync counter_np \<lparr>tokenizer_len = 3, rng = 42\<rparr> [1, 2, 3])) = 17
   \<and> rng (snd (next_token_logprobs_sync counter_np \<lparr>tokenizer_len = 3, rng = 42\<rparr> [1, 2, 3]))
       \<noteq> rng \<lparr>tokenizer_len = 3, rng = 42\<rparr>"
  by (simp add: mock_init_def next_token_logprobs_sync_def get_logprobs_def seed_of_def
      rand_counter rs_seed_counter)

text \<open>
  C9, amended. The generator is the one the instance holds; every call re-seeds it from
  the seed of its input before drawing and leaves it where the draws ended. The outcome
  of a call is a function of the token ids and the tokenizer length alone: it is the
  same whatever generator the instance held, after any history of earlier calls.
\<close>

theorem generator_reseeded_each_call:
  "fst (get_logprobs np self token_ids) =
     (case rs_seed np (seed_of token_ids) of
        Inl e \<Rightarrow> Inl e
      | Inr g \<Rightarrow>
          Inr (torch_log_softmax np
                (map (astype_float32 np) (fst (rand np g (tokenizer_len self))))))
   \<and> rng (snd (get_logprobs np self token_ids)) =
     (case rs_seed np (seed_of token_ids) of
        Inl e \<Rightarrow> rng self
      | Inr g \<Rightarrow> snd (rand np g (tokenizer_len self)))
   \<and> fst (get_logprobs np (self\<lparr>rng := g1\<rparr>) token_ids) =
     fst (get_logprobs np (self\<lparr>rng := g2\<rparr>) token_ids)
   \<and> fst (get_logprobs np (state_after (get_logprobs np) self history) token_ids) =
     fst (get_logprobs np self token_ids)
   \<and> next_token_logprobs np self token_ids = get_logprobs np self token_ids
   \<and> next_token_logprobs_sync np self token_ids = get_logprobs np self token_ids"
proof -
  have "fst (get_logprobs np self token_ids) =
     (case rs_seed np (seed_of token_ids) of
        Inl e \<Rightarrow> Inl e
      | Inr g \<Rightarrow>
          Inr (torch_log_softmax np
                (map (astype_float32 np) (fst (rand np g (tokenizer_len self))))))"
    by (simp add: get_logprobs_def split: sum.splits prod.splits)
  moreover have "rng (snd (get_logprobs np self token_ids)) =
     (case rs_seed np (seed_of token_ids) of
        Inl e \<Rightarrow> rng self
      | Inr g \<Rightarrow> snd (rand np g (tokenizer_len self)))"
    by (simp add: get_logprobs_def split: sum.splits prod.splits)
  ultimately show ?thesis
    by (simp add: get_logprobs_rng_irrelevant get_logprobs_after_history
        next_token_logprobs_def next_token_logprobs_sync_def)
qed

section \<open>The blocking batch\<close>

lemma length_per_item: "length (per_item f s reqs) = length reqs"
  by (induction reqs arbitrary: s) simp_all

lemma per_item_nth:
  "i < length reqs \<Longrightarrow> per_item f s reqs ! i = fst (f (state_after f s (take i reqs)) (reqs ! i))"
proof (induction reqs arbitrary: s i)
  case Nil
  then show ?case by simp
next
  case (Cons t ts)
  show ?case
  proof (cases i)
    case 0
    then show ?thesis by simp
  next
    case (Suc j)
    with Cons.prems have "j < length ts" by simp
    from Cons.IH [OF this] Suc show ?thesis by simp
  qed
qed

lemma sync_logprobs_Inr_iff:
  "fst (sync_logprobs f s reqs) = Inr rs \<longleftrightarrow> per_item f s reqs = map Inr rs"
proof (induction reqs arbitrary: s rs)
  case Nil
  show ?case by auto
next
  case (Cons t ts)
  obtain r s' where f: "f s t = (r, s')" by (cases "f s t")
  show ?case
  proof (cases r)
    case (Inl e)
    with f show ?thesis by (cases rs) auto
  next
    case (Inr x)
    obtain q s'' where rec: "sync_logprobs f s' ts = (q, s'')" by (cases "sync_logprobs f s' ts")
    show ?thesis
    proof (cases q)
      case (Inl e)
      with rec have "\<And>rs'. per_item f s' ts \<noteq> map Inr rs'"
        using Cons.IH [of s'] by simp
      with f Inr rec Inl show ?thesis by (cases rs) auto
    next
      case (Inr xs)
      with rec have "\<And>rs'. (xs = rs') = (per_item f s' ts = map Inr rs')"
        using Cons.IH [of s'] by simp
      with f \<open>r = Inr x\<close> rec Inr show ?thesis by (cases rs) auto
    qed
  qed
qed

lemma sync_logprobs_state_Inr:
  "sync_logprobs f s reqs = (Inr rs, s') \<Longrightarrow> s' = state_after f s reqs"
  by (induction reqs arbitrary: s rs) (auto split: prod.splits sum.splits)


lemma torch_stack_Inr_iff:
  "torch_stack rs = Inr rows \<longleftrightarrow>
   rows = rs \<and> rs \<noteq> [] \<and> (\<forall>i<length rs. length (rs ! i) = length (rs ! 0))"
proof (cases rs)
  case Nil
  then show ?thesis by (simp add: torch_stack_def)
next
  case (Cons t ts)
  have "list_all (\<lambda>u. length u = length t) ts \<longleftrightarrow> (\<forall>i<length (t # ts). length ((t # ts) ! i) = length t)"
    by (auto simp: list_all_length nth_Cons split: nat.splits)
  with Cons show ?thesis by (auto simp: torch_stack_def)
qed

lemma batch_sync_Inr_iff:
  "fst (batch_next_token_logprobs_sync f s reqs) = Inr rows \<longleftrightarrow>
   per_item f s reqs = map Inr rows \<and> torch_stack rows = Inr rows"
proof -
  obtain q s' where q: "sync_logprobs f s reqs = (q, s')" by (cases "sync_logprobs f s reqs")
  show ?thesis
  proof (cases q)
    case (Inl e)
    with q have "\<And>rs. per_item f s reqs \<noteq> map Inr rs"
      using sync_logprobs_Inr_iff [of f s reqs] by simp
    with q Inl show ?thesis by (simp add: batch_next_token_logprobs_sync_def)
  next
    case (Inr rs)
    with q have "per_item f s reqs = map Inr rs"
      using sync_logprobs_Inr_iff [of f s reqs rs] by simp
    moreover have "inj (Inr :: 'b list \<Rightarrow> py_error + 'b list)" by (simp add: inj_def)
    ultimately have "\<And>rows. per_item f s reqs = map Inr rows \<longleftrightarrow> rows = rs"
      by (auto simp: inj_map_eq_map)
    with q Inr show ?thesis
      by (auto simp: batch_next_token_logprobs_sync_def torch_stack_Inr_iff)
  qed
qed

lemma map_Inr_eq_iff:
  "xs = map Inr rows \<longleftrightarrow> length rows = length xs \<and> (\<forall>i<length xs. xs ! i = Inr (rows ! i))"
  by (auto simp: list_eq_iff_nth_eq)

text \<open>
  C2. For a non-empty request list, \<open>batch_next_token_logprobs_sync\<close> returns \<open>rows\<close>
  exactly when \<open>rows\<close> is the index-aligned stack of the per-item results: it has one row
  per request, row \<open>i\<close> is what \<open>next_token_logprobs_sync\<close> returns for element \<open>i\<close> (called
  on the instance as the calls for the elements before \<open>i\<close> left it), and the rows have
  one size.
\<close>

theorem batch_sync_index_aligned:
  assumes "token_ids_list \<noteq> []"
  shows "fst (batch_next_token_logprobs_sync f s token_ids_list) = Inr rows \<longleftrightarrow>
         length rows = length token_ids_list
         \<and> (\<forall>i<length token_ids_list.
              fst (f (state_after f s (take i token_ids_list)) (token_ids_list ! i)) = Inr (rows ! i))
         \<and> (\<forall>i<length rows. length (rows ! i) = length (rows ! 0))"
proof -
  have "per_item f s token_ids_list = map Inr rows \<longleftrightarrow>
        length rows = length token_ids_list
        \<and> (\<forall>i<length token_ids_list.
             fst (f (state_after f s (take i token_ids_list)) (token_ids_list ! i)) = Inr (rows ! i))"
    by (simp add: map_Inr_eq_iff length_per_item per_item_nth)
  moreover have "length rows = length token_ids_list \<Longrightarrow> rows \<noteq> []"
    using assms by auto
  ultimately show ?thesis
    by (auto simp: batch_sync_Inr_iff torch_stack_Inr_iff)
qed

section \<open>The non-blocking batch\<close>

lemma first_error_run_members:
  "first_error (fst (run_members f s ms)) =
   first_error (zip (map fst ms) (per_item f s (map snd ms)))"
proof (induction ms arbitrary: s)
  case Nil
  show ?case by simp
next
  case (Cons m ms)
  obtain i t where m: "m = (i, t)" by (cases m)
  obtain r s' where f: "f s t = (r, s')" by (cases "f s t")
  obtain lg s'' where rec: "run_members f s' ms = (lg, s'')" by (cases "run_members f s' ms")
  from Cons.IH [of s'] m f rec show ?case by (cases r) simp_all
qed

lemma run_members_complete:
  "first_error (zip (map fst ms) (per_item f s (map snd ms))) = None \<Longrightarrow>
   run_members f s ms =
   (zip (map fst ms) (per_item f s (map snd ms)), state_after f s (map snd ms))"
proof (induction ms arbitrary: s)
  case Nil
  show ?case by simp
next
  case (Cons m ms)
  obtain i t where m: "m = (i, t)" by (cases m)
  obtain r s' where f: "f s t = (r, s')" by (cases "f s t")
  from Cons.prems m f obtain x where x: "r = Inr x" by (cases r) simp_all
  from Cons.prems m f x
  have "first_error (zip (map fst ms) (per_item f s' (map snd ms))) = None" by simp
  from Cons.IH [OF this] m f x show ?case by simp
qed

lemma distinct_map_insort_key:
  "distinct (map g (insort_key k x xs)) \<longleftrightarrow> g x \<notin> g ` set xs \<and> distinct (map g xs)"
  by (induction xs) (auto simp: set_insort_key)

lemma distinct_map_sort_key: "distinct (map g (sort_key k xs)) = distinct (map g xs)"
  by (induction xs) (simp_all add: distinct_map_insort_key)

lemma set_completion_order:
  "(i, t) \<in> set (completion_order latency xs) \<longleftrightarrow> i < length xs \<and> t = xs ! i"
  by (auto simp: completion_order_def in_set_enumerate_eq)

lemma length_completion_order: "length (completion_order latency xs) = length xs"
  by (simp add: completion_order_def)

lemma distinct_completion_order: "distinct (map fst (completion_order latency xs))"
  by (simp add: completion_order_def distinct_map_sort_key)

lemma fst_set_completion_order: "fst ` set (completion_order latency xs) = {0..<length xs}"
proof (intro set_eqI iffI)
  fix i assume "i \<in> fst ` set (completion_order latency xs)"
  then obtain t where "(i, t) \<in> set (completion_order latency xs)" by auto
  then show "i \<in> {0..<length xs}" by (simp add: set_completion_order)
next
  fix i assume "i \<in> {0..<length xs}"
  then have "(i, xs ! i) \<in> set (completion_order latency xs)"
    by (simp add: set_completion_order)
  then show "i \<in> fst ` set (completion_order latency xs)" by force
qed

lemma first_error_None_iff:
  "first_error lg = None \<longleftrightarrow> (\<forall>p \<in> set lg. \<forall>e. snd p \<noteq> Inl e)"
  by (induction lg rule: first_error.induct) auto

lemma first_error_Some_in:
  "first_error lg = Some e \<Longrightarrow> \<exists>i. (i, Inl e) \<in> set lg"
  by (induction lg rule: first_error.induct) auto

lemma results_Some_Inr: "results (map (\<lambda>r. Some (Inr r)) rs) = rs"
  by (induction rs) simp_all

lemma gather_rows:
  assumes d: "distinct (map fst lg)" and k: "fst ` set lg = {0..<n}"
    and ok: "first_error lg = None"
  shows "length (results (map (map_of lg) [0..<n])) = n
         \<and> (\<forall>i<n. (i, Inr (results (map (map_of lg) [0..<n]) ! i)) \<in> set lg)"
proof -
  define pick where "pick i = (case map_of lg i of Some (Inr r) \<Rightarrow> r)" for i
  have each: "map_of lg i = Some (Inr (pick i)) \<and> (i, Inr (pick i)) \<in> set lg" if "i < n" for i
  proof -
    from that k have "i \<in> fst ` set lg" by simp
    then obtain v where v: "(i, v) \<in> set lg" by auto
    with ok obtain r where r: "v = Inr r"
      by (cases v) (auto simp: first_error_None_iff)
    from d v have "map_of lg i = Some v" by simp
    with r v show ?thesis by (simp add: pick_def)
  qed
  then have "map (map_of lg) [0..<n] = map (\<lambda>r. Some (Inr r)) (map pick [0..<n])"
    by simp
  then have "results (map (map_of lg) [0..<n]) = map pick [0..<n]"
    by (simp only: results_Some_Inr)
  with each show ?thesis by simp
qed

lemma gather_eq:
  "fst (gather f latency s reqs) =
   (case first_error (zip (map fst (completion_order latency reqs))
                          (per_item f s (map snd (completion_order latency reqs)))) of
      Some e \<Rightarrow> Inl e
    | None \<Rightarrow>
        Inr (results (map (map_of (zip (map fst (completion_order latency reqs))
                                       (per_item f s (map snd (completion_order latency reqs)))))
                          [0..<length reqs])))"
proof (cases "first_error (zip (map fst (completion_order latency reqs))
                          (per_item f s (map snd (completion_order latency reqs))))")
  case None
  from run_members_complete [OF None] None show ?thesis
    by (simp add: gather_def)
next
  case (Some e)
  obtain lg s' where run: "run_members f s (completion_order latency reqs) = (lg, s')"
    by (cases "run_members f s (completion_order latency reqs)")
  from Some have "first_error (fst (run_members f s (completion_order latency reqs))) = Some e"
    by (simp add: first_error_run_members)
  with run have "first_error lg = Some e" by simp
  with run Some show ?thesis
    by (simp add: gather_def)
qed

lemma batch_async_eq:
  "fst (batch_next_token_logprobs f latency s reqs) =
   (case fst (gather f latency s reqs) of Inl e \<Rightarrow> Inl e | Inr logprobs \<Rightarrow> torch_stack logprobs)"
  by (simp add: batch_next_token_logprobs_def split: prod.splits sum.splits)

lemma log_member:
  assumes "(i, r) \<in> set (zip (map fst (completion_order latency reqs))
                              (per_item f s (map snd (completion_order latency reqs))))"
  shows "i < length reqs \<and>
         (\<exists>k<length reqs. r = per_item f s (map snd (completion_order latency reqs)) ! k
                    \<and> map snd (completion_order latency reqs) ! k = reqs ! i)"
proof -
  let ?ms = "completion_order latency reqs"
  let ?outs = "per_item f s (map snd ?ms)"
  from assms obtain k where k: "k < length ?ms" "map fst ?ms ! k = i" "?outs ! k = r"
    by (auto simp: in_set_zip length_per_item)
  then have "?ms ! k \<in> set ?ms" by simp
  moreover from k have "fst (?ms ! k) = i" by simp
  ultimately have "(i, snd (?ms ! k)) \<in> set ?ms" by (metis prod.collapse)
  then have "i < length reqs \<and> snd (?ms ! k) = reqs ! i"
    by (simp add: set_completion_order)
  with k show ?thesis by (auto simp: length_completion_order)
qed

lemma gather_Inr:
  assumes "fst (gather f latency s reqs) = Inr rows"
  shows "length rows = length reqs
         \<and> (\<forall>i<length reqs. (i, Inr (rows ! i)) \<in>
               set (zip (map fst (completion_order latency reqs))
                        (per_item f s (map snd (completion_order latency reqs)))))
         \<and> first_error (zip (map fst (completion_order latency reqs))
                        (per_item f s (map snd (completion_order latency reqs)))) = None"
proof -
  let ?ms = "completion_order latency reqs"
  let ?lg = "zip (map fst ?ms) (per_item f s (map snd ?ms))"
  have keys: "map fst ?lg = map fst ?ms" by (simp add: length_per_item)
  have d: "distinct (map fst ?lg)"
    unfolding keys by (rule distinct_completion_order)
  have "fst ` set ?lg = set (map fst ?lg)" by simp
  also have "\<dots> = fst ` set ?ms" unfolding keys by simp
  finally have k: "fst ` set ?lg = {0..<length reqs}"
    by (simp add: fst_set_completion_order)
  from assms have ok: "first_error ?lg = None" and rows: "rows = results (map (map_of ?lg) [0..<length reqs])"
    by (auto simp: gather_eq split: option.splits)
  from gather_rows [OF d k ok] rows ok show ?thesis by simp
qed

lemma gather_Inl:
  assumes "fst (gather f latency s reqs) = Inl e"
  shows "first_error (zip (map fst (completion_order latency reqs))
                        (per_item f s (map snd (completion_order latency reqs)))) = Some e"
  using assms by (auto simp: gather_eq split: option.splits)

lemma batch_async_aligned:
  assumes "fst (batch_next_token_logprobs f latency s reqs) = Inr rows"
  shows "length rows = length reqs \<and> (\<forall>i<length reqs. \<exists>s'. fst (f s' (reqs ! i)) = Inr (rows ! i))"
proof -
  let ?ms = "completion_order latency reqs"
  from assms obtain rs where g: "fst (gather f latency s reqs) = Inr rs" and st: "torch_stack rs = Inr rows"
    by (auto simp: batch_async_eq split: sum.splits)
  from st have "rows = rs" by (simp add: torch_stack_Inr_iff)
  with gather_Inr [OF g] have len: "length rows = length reqs"
    and mem: "\<forall>i<length reqs. (i, Inr (rows ! i)) \<in>
               set (zip (map fst ?ms) (per_item f s (map snd ?ms)))"
    by simp_all
  have "\<exists>s'. fst (f s' (reqs ! i)) = Inr (rows ! i)" if "i < length reqs" for i
  proof -
    from mem that log_member [of i "Inr (rows ! i)" latency reqs f s]
    obtain k where k: "k < length reqs" "Inr (rows ! i) = per_item f s (map snd ?ms) ! k"
      "map snd ?ms ! k = reqs ! i" by blast
    from k(1) have "k < length (map snd ?ms)" by (simp add: length_completion_order)
    from per_item_nth [OF this, of f s] k(2,3)
    have "fst (f (state_after f s (take k (map snd ?ms))) (reqs ! i)) = Inr (rows ! i)" by simp
    then show ?thesis ..
  qed
  with len show ?thesis by simp
qed

lemma per_item_history_det:
  "(\<And>history t. fst (f (state_after f s history) t) = F t) \<Longrightarrow> per_item f s ts = map F ts"
proof (induction ts arbitrary: s)
  case Nil
  show ?case by simp
next
  case (Cons t ts)
  have head: "fst (f s t) = F t" using Cons.prems [of "[]" t] by simp
  have "per_item f (snd (f s t)) ts = map F ts"
  proof (rule Cons.IH)
    fix history t'
    show "fst (f (state_after f (snd (f s t)) history) t') = F t'"
      using Cons.prems [of "t # history" t'] by simp
  qed
  with head show ?case by simp
qed

lemma batch_sync_Inr_iff_history_det:
  assumes "\<And>history t. fst (f (state_after f s history) t) = F t"
  shows "fst (batch_next_token_logprobs_sync f s reqs) = Inr rows \<longleftrightarrow>
         map F reqs = map Inr rows \<and> torch_stack rows = Inr rows"
  by (simp add: batch_sync_Inr_iff per_item_history_det [of f s F, OF assms])

lemma batch_async_Inr_iff_history_det:
  assumes det: "\<And>history t. fst (f (state_after f s history) t) = F t"
  shows "fst (batch_next_token_logprobs f latency s reqs) = Inr rows \<longleftrightarrow>
         map F reqs = map Inr rows \<and> torch_stack rows = Inr rows"
proof -
  let ?ms = "completion_order latency reqs"
  let ?lg = "zip (map fst ?ms) (per_item f s (map snd ?ms))"
  have outs: "per_item f s (map snd ?ms) = map F (map snd ?ms)"
    by (rule per_item_history_det) (rule det)
  have val: "r = F (reqs ! i) \<and> i < length reqs" if "(i, r) \<in> set ?lg" for i r
  proof -
    from log_member [OF that] obtain k where "i < length reqs" "k < length reqs"
      "r = per_item f s (map snd ?ms) ! k" "map snd ?ms ! k = reqs ! i" by blast
    then show ?thesis by (simp add: outs length_completion_order)
  qed
  show ?thesis
  proof (cases "fst (gather f latency s reqs)")
    case (Inl e)
    from gather_Inl [OF Inl] obtain i where "(i, Inl e) \<in> set ?lg"
      using first_error_Some_in by blast
    from val [OF this] have "F (reqs ! i) = Inl e" "i < length reqs" by simp_all
    then have "map F reqs \<noteq> map Inr rows"
      by (auto simp: map_Inr_eq_iff)
    with Inl show ?thesis by (simp add: batch_async_eq)
  next
    case (Inr rs)
    from gather_Inr [OF Inr] have len: "length rs = length reqs"
      and mem: "\<forall>i<length reqs. (i, Inr (rs ! i)) \<in> set ?lg" by simp_all
    have "\<forall>i<length reqs. F (reqs ! i) = Inr (rs ! i)"
      using mem val by metis
    with len have "map F reqs = map Inr rs" by (simp add: map_Inr_eq_iff)
    moreover have "inj (Inr :: 'b list \<Rightarrow> py_error + 'b list)" by (simp add: inj_def)
    ultimately have "map F reqs = map Inr rows \<longleftrightarrow> rows = rs"
      by (auto simp: inj_map_eq_map)
    with Inr show ?thesis by (auto simp: batch_async_eq torch_stack_Inr_iff)
  qed
qed

text \<open>
  C3. Whatever the order in which the members of the fan-out complete, a result of
  \<open>batch_next_token_logprobs\<close> has one row per request and row \<open>i\<close> is an answer of the
  single request for element \<open>i\<close>. On a deterministic backend (the outcome of a request is
  a function \<open>F\<close> of the token ids, at every instance reached by requests) the result is
  the result of \<open>batch_next_token_logprobs_sync\<close>, it is the same for every completion
  order, and row \<open>i\<close> is the single-call result for element \<open>i\<close>.
\<close>

theorem batch_async_index_aligned:
  "(fst (batch_next_token_logprobs fa latency s token_ids_list) = Inr rows \<longrightarrow>
      length rows = length token_ids_list
      \<and> (\<forall>i<length token_ids_list. \<exists>s'. fst (fa s' (token_ids_list ! i)) = Inr (rows ! i)))
   \<and> ((\<forall>history t. fst (fa (state_after fa s history) t) = F t)
       \<and> (\<forall>history t. fst (fs (state_after fs s0 history) t) = F t) \<longrightarrow>
        (fst (batch_next_token_logprobs fa latency s token_ids_list) = Inr rows
           \<longleftrightarrow> fst (batch_next_token_logprobs_sync fs s0 token_ids_list) = Inr rows)
        \<and> (fst (batch_next_token_logprobs fa latency s token_ids_list) = Inr rows
           \<longleftrightarrow> fst (batch_next_token_logprobs fa latency' s token_ids_list) = Inr rows)
        \<and> (fst (batch_next_token_logprobs fa latency s token_ids_list) = Inr rows \<longrightarrow>
             (\<forall>i<length token_ids_list. fst (fa s (token_ids_list ! i)) = Inr (rows ! i))))"
proof -
  have generic: "length rows = length token_ids_list
      \<and> (\<forall>i<length token_ids_list. \<exists>s'. fst (fa s' (token_ids_list ! i)) = Inr (rows ! i))"
    if "fst (batch_next_token_logprobs fa latency s token_ids_list) = Inr rows"
    using that by (rule batch_async_aligned)
  have det: "(fst (batch_next_token_logprobs fa latency s token_ids_list) = Inr rows
           \<longleftrightarrow> fst (batch_next_token_logprobs_sync fs s0 token_ids_list) = Inr rows)
        \<and> (fst (batch_next_token_logprobs fa latency s token_ids_list) = Inr rows
           \<longleftrightarrow> fst (batch_next_token_logprobs fa latency' s token_ids_list) = Inr rows)
        \<and> (fst (batch_next_token_logprobs fa latency s token_ids_list) = Inr rows \<longrightarrow>
             (\<forall>i<length token_ids_list. fst (fa s (token_ids_list ! i)) = Inr (rows ! i)))"
    if a: "\<And>history t. fst (fa (state_after fa s history) t) = F t"
      and b: "\<And>history t. fst (fs (state_after fs s0 history) t) = F t"
  proof -
    have async: "fst (batch_next_token_logprobs fa l s token_ids_list) = Inr rows \<longleftrightarrow>
        map F token_ids_list = map Inr rows \<and> torch_stack rows = Inr rows" for l
      by (rule batch_async_Inr_iff_history_det) (rule a)
    have sync: "fst (batch_next_token_logprobs_sync fs s0 token_ids_list) = Inr rows \<longleftrightarrow>
        map F token_ids_list = map Inr rows \<and> torch_stack rows = Inr rows"
      by (rule batch_sync_Inr_iff_history_det) (rule b)
    have single: "fst (fa s t) = F t" for t using a [of "[]" t] by simp
    have "\<forall>i<length token_ids_list. fst (fa s (token_ids_list ! i)) = Inr (rows ! i)"
      if "map F token_ids_list = map Inr rows"
      using that by (simp add: map_Inr_eq_iff single)
    with async sync show ?thesis by blast
  qed
  from generic det show ?thesis by blast
qed

text \<open>
  C10. On the empty request list both batch methods raise: \<^verbatim>\<open>torch.stack\<close> is given an
  empty list of tensors.
\<close>

theorem empty_batch_raises:
  "fst (batch_next_token_logprobs_sync fs s []) = Inl RuntimeError
   \<and> fst (batch_next_token_logprobs fa latency s []) = Inl RuntimeError"
  by (simp add: batch_next_token_logprobs_sync_def batch_next_token_logprobs_def gather_def
      completion_order_def torch_stack_def)

section \<open>Failure of a batch\<close>














section \<open>The statements on concrete inputs\<close>

lemma get_logprobs_counter:
  "get_logprobs counter_np self token_ids =
   (if 0 \<le> seed_of token_ids \<and> seed_of token_ids < 2 ^ 32
    then (Inr (log_softmax (map (\<lambda>k. real (k mod 4) / 4)
                 [nat (seed_of token_ids)..<nat (seed_of token_ids) + tokenizer_len self])),
          self\<lparr>rng := nat (seed_of token_ids) + tokenizer_len self\<rparr>)
    else (Inl ValueError, self))"
  by (simp add: get_logprobs_def rs_seed_counter rand_counter log_softmax_counter astype_counter
      cong: map_cong)

lemma seed_examples:
  "seed_of [1, 2, 3] = 14" "seed_of [4, 5] = 14" "seed_of [4294967296] = 4294967296"
  by (simp_all add: seed_of_def)



lemma mock_history_det:
  "fst (next_token_logprobs np (state_after (next_token_logprobs np) self history) t) =
     fst (get_logprobs np self t)"
  "fst (next_token_logprobs_sync np (state_after (next_token_logprobs_sync np) self history) t) =
     fst (get_logprobs np self t)"
  by (simp_all add: next_token_logprobs_eq next_token_logprobs_sync_eq get_logprobs_after_history)

text \<open>
  On the mock backend the instance a request runs on does not matter: a row of either
  batch is the result of the single request on the instance the batch started from.
\<close>

lemma mock_batch_rows:
  assumes "fst (batch_next_token_logprobs_sync (next_token_logprobs_sync np) self reqs) = Inr rows
           \<or> fst (batch_next_token_logprobs (next_token_logprobs np) latency self reqs) = Inr rows"
  shows "length rows = length reqs
         \<and> (\<forall>i<length reqs. fst (next_token_logprobs_sync np self (reqs ! i)) = Inr (rows ! i)
                              \<and> fst (next_token_logprobs np self (reqs ! i)) = Inr (rows ! i))"
proof -
  let ?F = "\<lambda>t. fst (get_logprobs np self t)"
  have "map ?F reqs = map Inr rows"
    using assms
      batch_sync_Inr_iff_history_det [of "next_token_logprobs_sync np" self ?F reqs rows]
      batch_async_Inr_iff_history_det [of "next_token_logprobs np" self ?F latency reqs rows]
    by (auto simp: mock_history_det)
  then show ?thesis
    by (simp add: map_Inr_eq_iff next_token_logprobs_def next_token_logprobs_sync_def)
qed

text \<open>The blocking batch on \<open>[[1,2,3],[4,5]]\<close>, a tokenizer of three tokens.\<close>

theorem batch_sync_index_aligned_witness:
  "[[1, 2, 3], [4, 5]] \<noteq> ([] :: int list list)
   \<and> fst (batch_next_token_logprobs_sync (next_token_logprobs_sync counter_np)
            \<lparr>tokenizer_len = 3, rng = 42\<rparr> [[1, 2, 3], [4, 5]]) =
       Inr [log_softmax (map (\<lambda>k. real (k mod 4) / 4) [14..<17]),
            log_softmax (map (\<lambda>k. real (k mod 4) / 4) [14..<17])]
   \<and> fst (next_token_logprobs_sync counter_np \<lparr>tokenizer_len = 3, rng = 42\<rparr> [1, 2, 3]) =
       Inr (log_softmax (map (\<lambda>k. real (k mod 4) / 4) [14..<17]))
   \<and> fst (next_token_logprobs_sync counter_np \<lparr>tokenizer_len = 3, rng = 42\<rparr> [4, 5]) =
       Inr (log_softmax (map (\<lambda>k. real (k mod 4) / 4) [14..<17]))"
proof -
  let ?f = "next_token_logprobs_sync counter_np"
  let ?s = "\<lparr>tokenizer_len = 3, rng = 42\<rparr> :: nat MockAsyncLM"
  let ?R = "[[1, 2, 3], [4, 5]] :: int list list"
  let ?r = "log_softmax (map (\<lambda>k. real (k mod 4) / 4) [14..<17])"
  have ne: "?R \<noteq> []" by simp
  have single: "fst (?f s t) = fst (get_logprobs counter_np s t)" for s t
    by (simp add: next_token_logprobs_sync_def)
  have one: "fst (get_logprobs counter_np s [1, 2, 3]) = Inr ?r" if "tokenizer_len s = 3" for s :: "nat MockAsyncLM"
    using that by (simp add: get_logprobs_counter seed_examples)
  have two: "fst (get_logprobs counter_np s [4, 5]) = Inr ?r" if "tokenizer_len s = 3" for s :: "nat MockAsyncLM"
    using that by (simp add: get_logprobs_counter seed_examples)
  have rhs: "length [?r, ?r] = length ?R
         \<and> (\<forall>i<length ?R. fst (?f (state_after ?f ?s (take i ?R)) (?R ! i)) = Inr ([?r, ?r] ! i))
         \<and> (\<forall>i<length [?r, ?r]. length ([?r, ?r] ! i) = length ([?r, ?r] ! 0))"
    by (simp add: All_less_Suc single one two next_token_logprobs_sync_eq tokenizer_len_get_logprobs)
  from batch_sync_index_aligned [OF ne, of ?f ?s "[?r, ?r]"] rhs
  have "fst (batch_next_token_logprobs_sync ?f ?s ?R) = Inr [?r, ?r]" by blast
  with ne one [of ?s] two [of ?s] show ?thesis by (simp add: single)
qed

lemma batch_sync_example:
  "fst (batch_next_token_logprobs_sync (next_token_logprobs_sync counter_np)
          \<lparr>tokenizer_len = 3, rng = 42\<rparr> [[1, 2, 3], [4, 5]]) =
   Inr [log_softmax (map (\<lambda>k. real (k mod 4) / 4) [14..<17]),
        log_softmax (map (\<lambda>k. real (k mod 4) / 4) [14..<17])]"
  by (simp add: batch_next_token_logprobs_sync_def next_token_logprobs_sync_def
      get_logprobs_counter seed_examples torch_stack_def)

text \<open>The same batch, non-blocking, the second member completing first.\<close>

theorem batch_async_index_aligned_witness:
  "(\<forall>history t.
       fst (next_token_logprobs counter_np
             (state_after (next_token_logprobs counter_np) \<lparr>tokenizer_len = 3, rng = 42\<rparr> history) t) =
       fst (get_logprobs counter_np \<lparr>tokenizer_len = 3, rng = 42\<rparr> t))
   \<and> fst (batch_next_token_logprobs (next_token_logprobs counter_np) (\<lambda>i. 1 - i)
            \<lparr>tokenizer_len = 3, rng = 42\<rparr> [[1, 2, 3], [4, 5]]) =
       Inr [log_softmax (map (\<lambda>k. real (k mod 4) / 4) [14..<17]),
            log_softmax (map (\<lambda>k. real (k mod 4) / 4) [14..<17])]
   \<and> fst (batch_next_token_logprobs (next_token_logprobs counter_np) (\<lambda>i. i)
            \<lparr>tokenizer_len = 3, rng = 42\<rparr> [[1, 2, 3], [4, 5]]) =
       fst (batch_next_token_logprobs_sync (next_token_logprobs_sync counter_np)
            \<lparr>tokenizer_len = 3, rng = 42\<rparr> [[1, 2, 3], [4, 5]])
   \<and> fst (next_token_logprobs counter_np \<lparr>tokenizer_len = 3, rng = 42\<rparr> [1, 2, 3]) =
       Inr (log_softmax (map (\<lambda>k. real (k mod 4) / 4) [14..<17]))
   \<and> fst (next_token_logprobs counter_np \<lparr>tokenizer_len = 3, rng = 42\<rparr> [4, 5]) =
       Inr (log_softmax (map (\<lambda>k. real (k mod 4) / 4) [14..<17]))"
proof -
  let ?fa = "next_token_logprobs counter_np"
  let ?fs = "next_token_logprobs_sync counter_np"
  let ?s = "\<lparr>tokenizer_len = 3, rng = 42\<rparr> :: nat MockAsyncLM"
  let ?R = "[[1, 2, 3], [4, 5]] :: int list list"
  let ?r = "log_softmax (map (\<lambda>k. real (k mod 4) / 4) [14..<17])"
  let ?F = "\<lambda>t. fst (get_logprobs counter_np ?s t)"
  have a: "\<forall>history t. fst (?fa (state_after ?fa ?s history) t) = ?F t"
    by (simp add: mock_history_det)
  have b: "\<forall>history t. fst (?fs (state_after ?fs ?s history) t) = ?F t"
    by (simp add: mock_history_det)
  note thm1 = batch_async_index_aligned [of ?fa "\<lambda>i. 1 - i" ?s ?R "[?r, ?r]" ?F ?fs ?s "\<lambda>i. i"]
  from thm1 a b batch_sync_example
  have first: "fst (batch_next_token_logprobs ?fa (\<lambda>i. 1 - i) ?s ?R) = Inr [?r, ?r]"
    by blast
  with thm1 a b have second: "fst (batch_next_token_logprobs ?fa (\<lambda>i. i) ?s ?R) = Inr [?r, ?r]"
    by blast
  from thm1 a b first
  have rows: "\<forall>i<length ?R. fst (?fa ?s (?R ! i)) = Inr ([?r, ?r] ! i)"
    by blast
  from rows [rule_format, of 0] have r0: "fst (?fa ?s [1, 2, 3]) = Inr ?r" by simp
  from rows [rule_format, of 1] have r1: "fst (?fa ?s [4, 5]) = Inr ?r" by simp
  from a first second batch_sync_example r0 r1 show ?thesis by simp
qed





end
